theory Spec2Isabelle
  imports Main "HOL-Library.List_Lexorder" "HOL-Library.Multiset"
begin

section \<open>Strings\<close>

text \<open>
  A Python \<^verbatim>\<open>str\<close> is a sequence of Unicode code points, so it is modelled as a list
  of code points (natural numbers); comparison of strings is then the lexicographic order
  on those lists, as in Python. The tables of white space (\<^verbatim>\<open>isspace\<close>, \<^verbatim>\<open>\s\<close>), of
  the decimal digits (\<^verbatim>\<open>\d\<close>, the digits that \<^verbatim>\<open>int\<close> reads) and of the digits
  (\<^verbatim>\<open>isdigit\<close>) are those of CPython 3.11 (Unicode 14.0) on all code points. The
  tables of word characters (\<^verbatim>\<open>\w\<close>) and of lower case (\<^verbatim>\<open>lower\<close>) are the ones of
  Python on the repertoire U+0000..U+00FF (Basic Latin, Latin-1), U+0400..U+045F
  (Cyrillic) and the glyphs U+2015, U+2022, U+2500 that the program names; a code point
  outside this repertoire is no word character and has no case mapping here.
\<close>

type_synonym ustr = "nat list"

definition ascii :: "string \<Rightarrow> ustr" where
  "ascii s = map of_char s"

definition isspace_cp :: "nat \<Rightarrow> bool" where
  "isspace_cp c \<longleftrightarrow>
     (9 \<le> c \<and> c \<le> 13) \<or> (28 \<le> c \<and> c \<le> 32) \<or> c = 133 \<or> c = 160 \<or> c = 5760 \<or>
     (8192 \<le> c \<and> c \<le> 8202) \<or> c = 8232 \<or> c = 8233 \<or> c = 8239 \<or> c = 8287 \<or> c = 12288"

text \<open>
  The decimal digits of Unicode, as ranges of code points. Every range begins at a digit
  zero and holds the digits zero to nine in order, once or several times over, so the
  value of a digit is its distance from the start of its range, modulo ten.
\<close>

definition decimal_ranges :: "(nat \<times> nat) list" where
  "decimal_ranges =
    [(48, 57), (1632, 1641), (1776, 1785), (1984, 1993), (2406, 2415), (2534, 2543),
     (2662, 2671), (2790, 2799), (2918, 2927), (3046, 3055), (3174, 3183), (3302, 3311),
     (3430, 3439), (3558, 3567), (3664, 3673), (3792, 3801), (3872, 3881), (4160, 4169),
     (4240, 4249), (6112, 6121), (6160, 6169), (6470, 6479), (6608, 6617), (6784, 6793),
     (6800, 6809), (6992, 7001), (7088, 7097), (7232, 7241), (7248, 7257), (42528, 42537),
     (43216, 43225), (43264, 43273), (43472, 43481), (43504, 43513), (43600, 43609),
     (44016, 44025), (65296, 65305), (66720, 66729), (68912, 68921), (69734, 69743),
     (69872, 69881), (69942, 69951), (70096, 70105), (70384, 70393), (70736, 70745),
     (70864, 70873), (71248, 71257), (71360, 71369), (71472, 71481), (71904, 71913),
     (72016, 72025), (72784, 72793), (73040, 73049), (73120, 73129), (92768, 92777),
     (92864, 92873), (93008, 93017), (120782, 120831), (123200, 123209), (123632, 123641),
     (125264, 125273), (130032, 130041)]"

text \<open>
  The characters that \<^verbatim>\<open>str.isdigit\<close> accepts and that are no decimal digits:
  superscripts, subscripts, circled and parenthesized digits and the like.
\<close>

definition other_digit_ranges :: "(nat \<times> nat) list" where
  "other_digit_ranges =
    [(178, 179), (185, 185), (4969, 4977), (6618, 6618), (8304, 8304), (8308, 8313),
     (8320, 8329), (9312, 9320), (9332, 9340), (9352, 9360), (9450, 9450), (9461, 9469),
     (9471, 9471), (10102, 10110), (10112, 10120), (10122, 10130), (68160, 68163),
     (69216, 69224), (69714, 69722), (127232, 127242)]"

definition in_ranges :: "(nat \<times> nat) list \<Rightarrow> nat \<Rightarrow> bool" where
  "in_ranges rs c \<longleftrightarrow> list_ex (\<lambda>r. fst r \<le> c \<and> c \<le> snd r) rs"

definition isdecimal_cp :: "nat \<Rightarrow> bool" where
  \<comment> \<open>the class \<^verbatim>\<open>\d\<close> of \<^verbatim>\<open>re\<close>, and the digits that \<^verbatim>\<open>int()\<close> reads\<close>
  "isdecimal_cp c \<longleftrightarrow> in_ranges decimal_ranges c"

definition decimal_value :: "nat \<Rightarrow> nat" where
  "decimal_value c =
     (case find (\<lambda>r. fst r \<le> c \<and> c \<le> snd r) decimal_ranges of
        Some r \<Rightarrow> (c - fst r) mod 10
      | None \<Rightarrow> 0)"

definition isdigit_cp :: "nat \<Rightarrow> bool" where
  \<comment> \<open>\<^verbatim>\<open>str.isdigit\<close> on one character\<close>
  "isdigit_cp c \<longleftrightarrow> isdecimal_cp c \<or> in_ranges other_digit_ranges c"

definition tag_char :: "nat \<Rightarrow> bool" where
  \<comment> \<open>the class \<^verbatim>\<open>[\w\<dots>\d_-]\<close> of the tag pattern: word characters and the hyphen\<close>
  "tag_char c \<longleftrightarrow>
     c = 45 \<or> (48 \<le> c \<and> c \<le> 57) \<or> (65 \<le> c \<and> c \<le> 90) \<or> c = 95 \<or> (97 \<le> c \<and> c \<le> 122) \<or>
     c = 170 \<or> c = 178 \<or> c = 179 \<or> c = 181 \<or> c = 185 \<or> c = 186 \<or> (188 \<le> c \<and> c \<le> 190) \<or>
     (192 \<le> c \<and> c \<le> 214) \<or> (216 \<le> c \<and> c \<le> 246) \<or> (248 \<le> c \<and> c \<le> 255) \<or>
     (1024 \<le> c \<and> c \<le> 1119)"

definition lower_cp :: "nat \<Rightarrow> nat" where
  "lower_cp c =
     (if 65 \<le> c \<and> c \<le> 90 then c + 32
      else if 192 \<le> c \<and> c \<le> 222 \<and> c \<noteq> 215 then c + 32
      else if 1024 \<le> c \<and> c \<le> 1039 then c + 80
      else if 1040 \<le> c \<and> c \<le> 1071 then c + 32
      else c)"

definition lower :: "ustr \<Rightarrow> ustr" where
  "lower s = map lower_cp s"

definition strip :: "ustr \<Rightarrow> ustr" where
  "strip s = rev (dropWhile isspace_cp (rev (dropWhile isspace_cp s)))"

fun startswith :: "ustr \<Rightarrow> ustr \<Rightarrow> bool" where
  "startswith s [] = True"
| "startswith [] (p # ps) = False"
| "startswith (c # cs) (p # ps) = (c = p \<and> startswith cs ps)"

text \<open>\<^verbatim>\<open>sub in s\<close>: \<^verbatim>\<open>sub\<close> occurs in \<^verbatim>\<open>s\<close> as a contiguous run.\<close>

fun str_in :: "ustr \<Rightarrow> ustr \<Rightarrow> bool" where
  "str_in sub [] = (sub = [])"
| "str_in sub (c # cs) = (startswith (c # cs) sub \<or> str_in sub cs)"

fun join :: "ustr \<Rightarrow> ustr list \<Rightarrow> ustr" where
  "join sep [] = []"
| "join sep [x] = x"
| "join sep (x # y # ys) = x @ sep @ join sep (y # ys)"

text \<open>
  \<^verbatim>\<open>str.isdigit()\<close> and \<^verbatim>\<open>int(s)\<close>. The program calls \<^verbatim>\<open>int\<close> only on strings for
  which \<^verbatim>\<open>isdigit\<close> holds; on those, \<^verbatim>\<open>int\<close> reads a string of decimal digits of any
  script and raises \<^verbatim>\<open>ValueError\<close> on any other digit character, and also on a string
  of more than 4300 digits (the limit of CPython on the conversion, as it is set by
  default).
\<close>

datatype error = ValueError

definition isdigit :: "ustr \<Rightarrow> bool" where
  "isdigit s \<longleftrightarrow> s \<noteq> [] \<and> list_all isdigit_cp s"

definition py_int :: "ustr \<Rightarrow> error + int" where
  "py_int s =
     (if s \<noteq> [] \<and> list_all isdecimal_cp s \<and> length s \<le> 4300
      then Inr (foldl (\<lambda>n c. 10 * n + int (decimal_value c)) 0 s)
      else Inl ValueError)"

text \<open>
  \<^verbatim>\<open>list(set(xs))\<close>: the elements of \<^verbatim>\<open>xs\<close>, each once. Python leaves the order of
  iteration over a set unspecified; the model fixes one, and no statement below depends
  on which.
\<close>

definition list_set :: "ustr list \<Rightarrow> ustr list" where
  "list_set xs = remdups xs"

section \<open>The regular expressions of \<^verbatim>\<open>ChatParser.__init__\<close>\<close>

text \<open>
  \<^verbatim>\<open>pattern.search(text)\<close> tries the pattern at each position from the left and stops
  at the first position where it matches; the result is group 1 of that match.
\<close>

fun re_search :: "(ustr \<Rightarrow> ustr option) \<Rightarrow> ustr \<Rightarrow> ustr option" where
  "re_search m [] = m []"
| "re_search m (c # cs) = (case m (c # cs) of Some g \<Rightarrow> Some g | None \<Rightarrow> re_search m cs)"

text \<open>
  \<^verbatim>\<open>prefix\s*(\d+)\<close> at the head of \<^verbatim>\<open>s\<close>, with an optional literal between the white
  space and the digits: the patterns \<^verbatim>\<open>message_start\<close> (literal \<^verbatim>\<open>#\<close>), \<^verbatim>\<open>message_id\<close>
  and \<^verbatim>\<open>reply_to\<close>. No white space is a digit or \<^verbatim>\<open>#\<close>, so the greedy \<^verbatim>\<open>\s*\<close>
  never gives back, and the greedy \<^verbatim>\<open>\d+\<close> takes the whole run of digits.
\<close>

definition match_number :: "ustr \<Rightarrow> ustr \<Rightarrow> ustr \<Rightarrow> ustr option" where
  "match_number pre lit s =
     (if startswith s pre then
        (let r = dropWhile isspace_cp (drop (length pre) s) in
         if startswith r lit \<and> takeWhile isdecimal_cp (drop (length lit) r) \<noteq> []
         then Some (takeWhile isdecimal_cp (drop (length lit) r)) else None)
      else None)"

text \<open>
  \<^verbatim>\<open>prefix\s*([^\<bullet>]+?)\s*\<bullet>\<close> at the head of \<^verbatim>\<open>s\<close> (bullet: U+2022): the patterns
  \<^verbatim>\<open>sender\<close> and \<^verbatim>\<open>date\<close>. It matches when a bullet follows the prefix with at least one
  character between them. The lazy group is that stretch without the white space around
  it; when the stretch is white space only, backtracking leaves its last character to the
  group.
\<close>

definition bullet :: nat where
  "bullet = 8226"

definition match_field :: "ustr \<Rightarrow> ustr \<Rightarrow> ustr option" where
  "match_field pre s =
     (if startswith s pre then
        (let r = drop (length pre) s; u = takeWhile (\<lambda>c. c \<noteq> bullet) r in
         if u \<noteq> [] \<and> length u < length r
         then Some (if strip u = [] then [last u] else strip u) else None)
      else None)"

definition lit_message :: ustr where
  \<comment> \<open>the Cyrillic word of the start marker, U+0421 U+043E U+043E U+0431 U+0449 U+0435 U+043D U+0438 U+0435\<close>
  "lit_message = [1057, 1086, 1086, 1073, 1097, 1077, 1085, 1080, 1077]"

definition lit_from :: ustr where
  \<comment> \<open>U+041E U+0442 and a colon\<close>
  "lit_from = [1054, 1090, 58]"

definition lit_date :: ustr where
  \<comment> \<open>U+0414 U+0430 U+0442 U+0430 and a colon\<close>
  "lit_date = [1044, 1072, 1090, 1072, 58]"

definition lit_id :: ustr where
  "lit_id = ascii ''ID:''"

definition lit_reply :: ustr where
  \<comment> \<open>the three Cyrillic words of the reply line, separated by spaces, and a colon\<close>
  "lit_reply = [1054, 1090, 1074, 1077, 1090, 32, 1085, 1072, 32,
                1089, 1086, 1086, 1073, 1097, 1077, 1085, 1080, 1077, 58]"

definition marker :: ustr where
  \<comment> \<open>the marker of an official answer, thirteen Cyrillic letters\<close>
  "marker = [1086, 1090, 1074, 1077, 1090, 1074, 1080, 1086, 1083, 1077, 1090, 1090, 1099]"

definition search_message_start :: "ustr \<Rightarrow> ustr option" where
  "search_message_start text = re_search (match_number lit_message [35]) text"

definition search_sender :: "ustr \<Rightarrow> ustr option" where
  "search_sender text = re_search (match_field lit_from) text"

definition search_date :: "ustr \<Rightarrow> ustr option" where
  "search_date text = re_search (match_field lit_date) text"

definition search_message_id :: "ustr \<Rightarrow> ustr option" where
  "search_message_id text = re_search (match_number lit_id []) text"

definition search_reply_to :: "ustr \<Rightarrow> ustr option" where
  "search_reply_to text = re_search (match_number lit_reply []) text"

text \<open>
  \<^verbatim>\<open>tags.findall(text)\<close>: the matches of \<^verbatim>\<open>#\<close> followed by a maximal non-empty run
  of tag characters, from left to right, without overlap.
\<close>

function findall_tags :: "ustr \<Rightarrow> ustr list" where
  "findall_tags [] = []"
| "findall_tags (c # cs) =
     (if c = 35 \<and> takeWhile tag_char cs \<noteq> []
      then (c # takeWhile tag_char cs) # findall_tags (dropWhile tag_char cs)
      else findall_tags cs)"
  by pat_completeness auto
termination
  by (relation "measure length") (auto simp: length_dropWhile_le less_Suc_eq_le)

section \<open>The parser\<close>

record ChatMessage =
  message_number :: ustr
  sender :: ustr
  date :: ustr
  message_id :: ustr
  reply_to :: ustr
  text_field :: ustr
  tags :: "ustr list"
  is_violetta_answer :: bool

definition divider :: nat where
  \<comment> \<open>U+2015, the horizontal bar\<close>
  "divider = 8213"

definition box_line :: nat where
  \<comment> \<open>U+2500, the light horizontal box-drawing line\<close>
  "box_line = 9472"

definition is_message_start :: "ustr \<Rightarrow> bool" where
  "is_message_start text \<longleftrightarrow>
     search_message_start text \<noteq> None \<or>
     str_in [divider, divider, divider, divider, divider, divider] text"

definition create_new_message :: "ustr \<Rightarrow> ChatMessage" where
  "create_new_message text =
     \<lparr>message_number = (case search_message_start text of Some g \<Rightarrow> g | None \<Rightarrow> []),
      sender = [], date = [], message_id = [], reply_to = [], text_field = [], tags = [],
      is_violetta_answer = False\<rparr>"

definition has_separator :: "ustr \<Rightarrow> bool" where
  "has_separator text \<longleftrightarrow>
     list_ex (\<lambda>separator. str_in separator text) [[divider, divider], [box_line], [divider]]"

definition matches_metadata :: "ustr \<Rightarrow> bool" where
  "matches_metadata text \<longleftrightarrow>
     list_ex (\<lambda>pattern. pattern text \<noteq> None)
       [search_sender, search_date, search_message_id, search_reply_to]"

definition process_message_content :: "ChatMessage \<Rightarrow> ustr \<Rightarrow> ChatMessage" where
  "process_message_content message text =
     (if has_separator text then message
      else
        let m1 = (if sender message = [] \<and> search_sender text \<noteq> None
                  then message\<lparr>sender := strip (the (search_sender text))\<rparr> else message);
            m2 = (if date m1 = [] \<and> search_date text \<noteq> None
                  then m1\<lparr>date := strip (the (search_date text))\<rparr> else m1);
            m3 = (if message_id m2 = [] \<and> search_message_id text \<noteq> None
                  then m2\<lparr>message_id := the (search_message_id text)\<rparr> else m2);
            m4 = (if reply_to m3 = [] \<and> search_reply_to text \<noteq> None
                  then m3\<lparr>reply_to := the (search_reply_to text)\<rparr> else m3)
        in
          if \<not> matches_metadata text then
            (let m5 = (if text_field m4 \<noteq> [] then m4\<lparr>text_field := text_field m4 @ [10] @ text\<rparr>
                       else m4\<lparr>text_field := text\<rparr>);
                 found = findall_tags text
             in if found \<noteq> [] then m5\<lparr>tags := tags m5 @ list_set found\<rparr> else m5)
          else m4)"

text \<open>
  The test \<^verbatim>\<open>if current_message and current_message.text: messages.append(current_message)\<close>,
  which the parser makes at every start marker and once more after the last block.
\<close>

definition save_message :: "ChatMessage list \<Rightarrow> ChatMessage option \<Rightarrow> ChatMessage list" where
  "save_message messages current_message =
     (case current_message of
        None \<Rightarrow> messages
      | Some m \<Rightarrow> if text_field m \<noteq> [] then messages @ [m] else messages)"

fun parse_loop ::
  "ustr list \<Rightarrow> ChatMessage list \<Rightarrow> ChatMessage option \<Rightarrow> ChatMessage list \<times> ChatMessage option"
where
  "parse_loop [] messages current_message = (messages, current_message)"
| "parse_loop (paragraph # rest) messages current_message =
     (let text = strip paragraph in
      if text = [] then parse_loop rest messages current_message
      else if is_message_start text then
        parse_loop rest (save_message messages current_message) (Some (create_new_message text))
      else
        (case current_message of
           None \<Rightarrow> parse_loop rest messages current_message
         | Some m \<Rightarrow> parse_loop rest messages (Some (process_message_content m text))))"

definition identify_violetta_answers :: "ChatMessage list \<Rightarrow> ChatMessage list" where
  "identify_violetta_answers messages =
     map (\<lambda>message. message\<lparr>is_violetta_answer :=
            list_ex (\<lambda>tag. str_in marker (lower tag)) (tags message)\<rparr>) messages"

text \<open>
  \<^verbatim>\<open>parse_word_document\<close> on the texts of the document's paragraphs, in order. Reading
  the file (and the error raised when it is absent) happens before the loop and is not
  part of the model.
\<close>

definition parse_word_document :: "ustr list \<Rightarrow> ChatMessage list" where
  "parse_word_document paragraphs =
     (case parse_loop paragraphs [] None of
        (messages, current_message) \<Rightarrow>
          identify_violetta_answers (save_message messages current_message))"

section \<open>The grouper\<close>

text \<open>
  \<^verbatim>\<open>messages_by_id\<close>, built by a dict comprehension over the messages that have an id:
  a later message with the same id replaces an earlier one.
\<close>

definition messages_by_id :: "ChatMessage list \<Rightarrow> (ustr \<rightharpoonup> ChatMessage)" where
  "messages_by_id messages =
     foldl (\<lambda>d msg. if message_id msg \<noteq> [] then d(message_id msg \<mapsto> msg) else d)
       Map.empty messages"

text \<open>
  The sort key \<^verbatim>\<open>int(x.message_number) if x.message_number.isdigit() else 0\<close>, and
  \<^verbatim>\<open>list.sort(key=\<dots>)\<close>: the keys of all elements are computed first, so the sort
  raises when one of them does; otherwise it is a stable sort by the keys.
\<close>

definition number_key :: "ChatMessage \<Rightarrow> error + int" where
  "number_key x =
     (if isdigit (message_number x) then py_int (message_number x) else Inr 0)"

definition number_value :: "ChatMessage \<Rightarrow> int" where
  "number_value x = (case number_key x of Inr n \<Rightarrow> n | Inl e \<Rightarrow> 0)"

definition sort_by_number :: "ChatMessage list \<Rightarrow> error + ChatMessage list" where
  "sort_by_number xs =
     (if list_ex (\<lambda>x. isl (number_key x)) xs then Inl ValueError
      else Inr (sort_key number_value xs))"

definition find_question_thread :: "ChatMessage list \<Rightarrow> ustr \<Rightarrow> error + ChatMessage list" where
  "find_question_thread messages start_message_id =
     (case messages_by_id messages start_message_id of
        None \<Rightarrow> Inr []
      | Some start_message \<Rightarrow>
          if reply_to start_message = [] then Inr [start_message]
          else sort_by_number
                 (filter (\<lambda>msg. reply_to msg = reply_to start_message \<and>
                                 sender msg = sender start_message \<and>
                                 \<not> is_violetta_answer msg) messages))"

definition ids_of :: "ChatMessage list \<Rightarrow> ustr list" where
  \<comment> \<open>\<^verbatim>\<open>[msg.message_id for msg in thread if msg.message_id]\<close>\<close>
  "ids_of thread = map message_id (filter (\<lambda>msg. message_id msg \<noteq> []) thread)"

definition find_answer_thread ::
  "ChatMessage list \<Rightarrow> ChatMessage list \<Rightarrow> error + ChatMessage list" where
  "find_answer_thread messages question_thread =
     sort_by_number
       (filter (\<lambda>msg. is_violetta_answer msg \<and> reply_to msg \<in> set (ids_of question_thread))
          messages)"

record QAPair =
  question_ids :: "ustr list"
  question_text :: ustr
  question_sender :: ustr
  question_date :: ustr
  answer_ids :: "ustr list"
  answer_text :: ustr
  qa_tags :: "ustr list"
  answer_date :: ustr

definition texts_of :: "ChatMessage list \<Rightarrow> ustr list" where
  \<comment> \<open>\<^verbatim>\<open>[msg.text for msg in thread if msg.text]\<close>\<close>
  "texts_of thread = map text_field (filter (\<lambda>msg. text_field msg \<noteq> []) thread)"

definition create_qa_pair :: "ChatMessage list \<Rightarrow> ChatMessage list \<Rightarrow> QAPair" where
  "create_qa_pair question_thread answer_thread =
     \<lparr>question_ids = ids_of question_thread,
      question_text = join [10, 10] (texts_of question_thread),
      question_sender = (case question_thread of [] \<Rightarrow> [] | q # qs \<Rightarrow> sender q),
      question_date = (case question_thread of [] \<Rightarrow> [] | q # qs \<Rightarrow> date q),
      answer_ids = ids_of answer_thread,
      answer_text = join [10, 10] (texts_of answer_thread),
      qa_tags = list_set (concat (map tags answer_thread)),
      answer_date = (if answer_thread \<noteq> [] then date (last answer_thread) else [])\<rparr>"

definition question_key :: "ChatMessage list \<Rightarrow> ustr list" where
  \<comment> \<open>\<^verbatim>\<open>tuple(sorted([msg.message_id for msg in question_thread if msg.message_id]))\<close>\<close>
  "question_key question_thread = sort (ids_of question_thread)"

text \<open>
  The loop of \<^verbatim>\<open>group_questions_answers\<close> over the official answers. It collects, for
  each pair it emits, the question thread and the answer thread that \<^verbatim>\<open>_create_qa_pair\<close>
  is called with; \<^verbatim>\<open>processed_questions\<close> is the set of keys seen so far.
\<close>

fun group_loop ::
  "ChatMessage list \<Rightarrow> ChatMessage list \<Rightarrow> (ChatMessage list \<times> ChatMessage list) list \<Rightarrow>
   ustr list set \<Rightarrow> error + (ChatMessage list \<times> ChatMessage list) list"
where
  "group_loop messages [] qa_threads processed_questions = Inr qa_threads"
| "group_loop messages (answer # rest) qa_threads processed_questions =
     (if reply_to answer = [] then group_loop messages rest qa_threads processed_questions
      else
        case find_question_thread messages (reply_to answer) of
          Inl e \<Rightarrow> Inl e
        | Inr question_thread \<Rightarrow>
            if question_thread = [] then
              group_loop messages rest qa_threads processed_questions
            else if question_key question_thread \<in> processed_questions then
              group_loop messages rest qa_threads processed_questions
            else
              (case find_answer_thread messages question_thread of
                 Inl e \<Rightarrow> Inl e
               | Inr answer_thread \<Rightarrow>
                   group_loop messages rest
                     (qa_threads @ [(question_thread, answer_thread)])
                     (insert (question_key question_thread) processed_questions)))"

definition violetta_answers :: "ChatMessage list \<Rightarrow> ChatMessage list" where
  "violetta_answers messages = filter is_violetta_answer messages"

definition group_threads ::
  "ChatMessage list \<Rightarrow> error + (ChatMessage list \<times> ChatMessage list) list" where
  "group_threads messages = group_loop messages (violetta_answers messages) [] {}"

definition group_questions_answers :: "ChatMessage list \<Rightarrow> error + QAPair list" where
  "group_questions_answers messages =
     (case group_threads messages of
        Inl e \<Rightarrow> Inl e
      | Inr qa_threads \<Rightarrow> Inr (map (\<lambda>(q, a). create_qa_pair q a) qa_threads))"

section \<open>The export metadata\<close>





section \<open>Notions used in the statements\<close>

text \<open>
  A paragraph that adds nothing to the body of the message being accumulated: it is blank,
  or it is not a start marker and holds a separator glyph or one of the four metadata
  patterns.
\<close>

definition no_body :: "ustr \<Rightarrow> bool" where
  "no_body b \<longleftrightarrow>
     strip b = [] \<or>
     (\<not> is_message_start (strip b) \<and> (has_separator (strip b) \<or> matches_metadata (strip b)))"

text \<open>
  The pair of threads \<^term>\<open>p\<close> is what one pass of the grouping loop computes for the
  official answer \<^term>\<open>answer\<close>: the question thread found from its reply target, which is
  not empty, and the answer thread found from that question thread.
\<close>

definition driven_by ::
  "ChatMessage list \<Rightarrow> ChatMessage \<Rightarrow> ChatMessage list \<times> ChatMessage list \<Rightarrow> bool" where
  "driven_by messages answer p \<longleftrightarrow>
     reply_to answer \<noteq> [] \<and>
     find_question_thread messages (reply_to answer) = Inr (fst p) \<and>
     fst p \<noteq> [] \<and>
     find_answer_thread messages (fst p) = Inr (snd p)"

text \<open>
  Every sequence number that \<^verbatim>\<open>isdigit\<close> accepts is one that \<^verbatim>\<open>int\<close> reads: it is
  made of decimal digits, at most 4300 of them.
\<close>

definition readable_numbers :: "ChatMessage list \<Rightarrow> bool" where
  "readable_numbers messages \<longleftrightarrow>
     list_all (\<lambda>x. isdigit (message_number x) \<longrightarrow>
                 list_all isdecimal_cp (message_number x) \<and> length (message_number x) \<le> 4300)
       messages"

section \<open>Example transcripts\<close>

definition start_block :: "string \<Rightarrow> ustr" where
  \<comment> \<open>a start marker with the given number\<close>
  "start_block n = lit_message @ ascii '' #'' @ ascii n"

definition from_block :: "string \<Rightarrow> ustr" where
  "from_block who = lit_from @ ascii '' '' @ ascii who @ ascii '' '' @ [bullet]"

definition id_block :: "string \<Rightarrow> ustr" where
  "id_block n = ascii ''ID: '' @ ascii n"

definition reply_block :: "string \<Rightarrow> ustr" where
  "reply_block n = lit_reply @ ascii '' '' @ ascii n"

definition answer_tag :: ustr where
  "answer_tag = 35 # marker"

definition plain_message :: "string \<Rightarrow> string \<Rightarrow> ChatMessage" where
  \<comment> \<open>what the parser yields for a start marker followed by one line of body\<close>
  "plain_message n body =
     \<lparr>message_number = ascii n, sender = [], date = [], message_id = [], reply_to = [],
      text_field = ascii body, tags = [], is_violetta_answer = False\<rparr>"

text \<open>Messages as the grouper receives them, written with their fields in ASCII.\<close>

definition chat_message ::
  "string \<Rightarrow> string \<Rightarrow> string \<Rightarrow> string \<Rightarrow> ustr \<Rightarrow> ustr list \<Rightarrow> bool \<Rightarrow> ChatMessage" where
  "chat_message n who i r body tgs ans =
     \<lparr>message_number = ascii n, sender = ascii who, date = [], message_id = ascii i,
      reply_to = ascii r, text_field = body, tags = tgs, is_violetta_answer = ans\<rparr>"

definition ex_q :: ChatMessage where
  "ex_q = chat_message ''1'' ''U'' ''1'' '''' (ascii ''q?'') [] False"

definition ex_a1 :: ChatMessage where
  "ex_a1 = chat_message ''2'' ''V'' ''2'' ''1'' (ascii ''a1 '' @ answer_tag) [answer_tag] True"

definition ex_m :: ChatMessage where
  "ex_m = chat_message ''3'' ''V'' ''3'' ''1'' (ascii ''m'') [] False"

definition ex_a2 :: ChatMessage where
  "ex_a2 = chat_message ''4'' ''V'' ''4'' ''2'' (ascii ''a2 '' @ answer_tag) [answer_tag] True"

definition ex_chat :: "ustr list" where
  "ex_chat =
     [start_block ''1'', from_block ''U'', id_block ''1'', ascii ''q?'',
      start_block ''2'', from_block ''V'', id_block ''2'', reply_block ''1'',
        ascii ''a1 '' @ answer_tag,
      start_block ''3'', from_block ''V'', id_block ''3'', reply_block ''1'', ascii ''m'',
      start_block ''4'', from_block ''V'', id_block ''4'', reply_block ''2'',
        ascii ''a2 '' @ answer_tag]"

definition t_root :: ChatMessage where
  "t_root = chat_message ''1'' ''B'' ''5'' [] (ascii ''topic'') [] False"

definition t_q1 :: ChatMessage where
  "t_q1 = chat_message ''3'' ''A'' ''6'' ''5'' (ascii ''and why?'') [] False"

definition t_q2 :: ChatMessage where
  "t_q2 = chat_message ''2'' ''A'' ''7'' ''5'' (ascii ''how?'') [] False"

definition t_q0 :: ChatMessage where
  "t_q0 = chat_message [] ''A'' ''8'' ''5'' (ascii ''hello'') [] False"

definition t_a1 :: ChatMessage where
  "t_a1 = chat_message ''9'' ''V'' ''10'' ''7'' (ascii ''so'') [answer_tag] True"

definition t_a2 :: ChatMessage where
  "t_a2 = chat_message ''4'' ''V'' ''11'' ''6'' (ascii ''because'') [answer_tag] True"

definition t_lost :: ChatMessage where
  "t_lost = chat_message ''7'' ''V'' ''12'' ''99'' (ascii ''lost'') [answer_tag] True"

definition thread_chat :: "ChatMessage list" where
  "thread_chat = [t_root, t_q1, t_q2, t_q0, t_lost, t_a1, t_a2]"

definition tag_chat :: "ustr list" where
  "tag_chat =
     [start_block ''1'', id_block ''1'', ascii ''why? #topic'',
      start_block ''2'', id_block ''2'', reply_block ''1'',
        ascii ''first #x '' @ answer_tag, ascii ''second #x #y'']"

definition tag_q :: ChatMessage where
  "tag_q = chat_message ''1'' [] ''1'' [] (ascii ''why? #topic'') [ascii ''#topic''] False"

definition tag_a :: ChatMessage where
  "tag_a = chat_message ''2'' [] ''2'' ''1''
     (ascii ''first #x '' @ answer_tag @ [10] @ ascii ''second #x #y'')
     [ascii ''#x'', answer_tag, ascii ''#x'', ascii ''#y''] True"

text \<open>The transcript of a question with one official answer.\<close>

definition focus_chat :: "ustr list" where
  "focus_chat =
     [start_block ''1'', from_block ''Alice'', id_block ''10'', ascii ''What is focus?'',
      start_block ''2'', from_block ''Bot'', id_block ''11'', reply_block ''10'',
        ascii ''Focus is attention. '' @ answer_tag @ ascii '' #motivation'']"

section \<open>Properties of the parser\<close>

lemmas char_defs =
  isspace_cp_def in_ranges_def decimal_ranges_def other_digit_ranges_def isdecimal_cp_def
  decimal_value_def isdigit_cp_def tag_char_def lower_cp_def bullet_def divider_def
  box_line_def

lemmas str_defs = ascii_def lower_def strip_def isdigit_def py_int_def list_set_def

lemmas re_defs =
  match_number_def match_field_def lit_message_def lit_from_def lit_date_def lit_id_def
  lit_reply_def marker_def search_message_start_def search_sender_def search_date_def
  search_message_id_def search_reply_to_def

lemmas parser_defs =
  is_message_start_def create_new_message_def has_separator_def matches_metadata_def
  process_message_content_def save_message_def identify_violetta_answers_def
  parse_word_document_def

lemmas example_defs =
  start_block_def from_block_def id_block_def reply_block_def answer_tag_def plain_message_def

lemmas parser_eval = char_defs str_defs re_defs parser_defs example_defs Let_def

lemma save_message_text:
  "\<forall>m\<in>set messages. text_field m \<noteq> [] \<Longrightarrow>
   \<forall>m\<in>set (save_message messages cur). text_field m \<noteq> []"
  by (auto simp: save_message_def split: option.splits)

lemma parse_loop_text:
  "\<forall>m\<in>set messages. text_field m \<noteq> [] \<Longrightarrow>
   \<forall>m\<in>set (fst (parse_loop ps messages cur)). text_field m \<noteq> []"
proof (induction ps arbitrary: messages cur)
  case Nil
  then show ?case by simp
next
  case (Cons p ps)
  show ?case
  proof (cases "strip p = []")
    case True
    then show ?thesis using Cons.IH [OF Cons.prems] by simp
  next
    case ne: False
    show ?thesis
    proof (cases "is_message_start (strip p)")
      case True
      then show ?thesis
        using ne Cons.IH [OF save_message_text [OF Cons.prems]] by simp
    next
      case False
      then show ?thesis
        using ne Cons.IH [OF Cons.prems] by (simp split: option.splits)
    qed
  qed
qed

lemma identify_set_text:
  "\<forall>m\<in>set ms. text_field m \<noteq> [] \<Longrightarrow>
   \<forall>m\<in>set (identify_violetta_answers ms). text_field m \<noteq> []"
  by (auto simp: identify_violetta_answers_def)

lemma parse_output_text: "\<forall>m\<in>set (parse_word_document ps). text_field m \<noteq> []"
proof -
  obtain ms cur where pl: "parse_loop ps [] None = (ms, cur)"
    by (cases "parse_loop ps [] None")
  have "\<forall>m\<in>set (fst (parse_loop ps [] None)). text_field m \<noteq> []"
    by (rule parse_loop_text) simp
  with pl have "\<forall>m\<in>set ms. text_field m \<noteq> []" by simp
  then have "\<forall>m\<in>set (save_message ms cur). text_field m \<noteq> []"
    by (rule save_message_text)
  then show ?thesis
    unfolding parse_word_document_def pl by (simp add: identify_set_text)
qed

lemma parse_loop_append:
  "parse_loop (xs @ ys) messages cur =
     (case parse_loop xs messages cur of (ms, c) \<Rightarrow> parse_loop ys ms c)"
  by (induction xs arbitrary: messages cur) (auto simp: Let_def split: option.splits)

lemma parse_loop_before_start:
  "\<forall>b\<in>set pre. \<not> is_message_start (strip b) \<Longrightarrow>
   parse_loop (pre @ rest) messages None = parse_loop rest messages None"
  by (induction pre) (auto simp: Let_def)

lemma pmc_keeps_text:
  "has_separator t \<or> matches_metadata t \<Longrightarrow>
   text_field (process_message_content m t) = text_field m"
  by (auto simp: process_message_content_def Let_def)

lemma parse_loop_no_body:
  "\<forall>b\<in>set bs. no_body b \<Longrightarrow> text_field c = [] \<Longrightarrow>
   \<exists>c'. parse_loop bs messages (Some c) = (messages, Some c') \<and> text_field c' = []"
proof (induction bs arbitrary: c)
  case Nil
  then show ?case by simp
next
  case (Cons b bs)
  from Cons.prems have nb: "no_body b" and rest: "\<forall>b\<in>set bs. no_body b" by simp_all
  show ?case
  proof (cases "strip b = []")
    case True
    then show ?thesis using Cons.IH [OF rest Cons.prems(2)] by simp
  next
    case False
    with nb have ns: "\<not> is_message_start (strip b)"
      and k: "has_separator (strip b) \<or> matches_metadata (strip b)"
      by (auto simp: no_body_def)
    have "text_field (process_message_content c (strip b)) = []"
      using pmc_keeps_text [OF k] Cons.prems(2) by simp
    from Cons.IH [OF rest this] show ?thesis using False ns by simp
  qed
qed

lemma is_message_start_Nil: "\<not> is_message_start []"
  by (simp add: is_message_start_def search_message_start_def match_number_def lit_message_def)

lemma save_message_empty: "text_field c = [] \<Longrightarrow> save_message ms (Some c) = ms"
  by (simp add: save_message_def)

lemma create_new_message_text: "text_field (create_new_message t) = []"
  by (simp add: create_new_message_def)

lemma unit_without_body_dropped:
  assumes st: "is_message_start (strip s)"
    and nb: "\<forall>b\<in>set bs. no_body b"
    and rest: "case rest of [] \<Rightarrow> True | r # rs \<Rightarrow> is_message_start (strip r)"
  shows "parse_word_document (pre @ s # bs @ rest) = parse_word_document (pre @ rest)"
proof -
  obtain ms c where pre: "parse_loop pre [] None = (ms, c)"
    by (cases "parse_loop pre [] None")
  from st have ne: "strip s \<noteq> []" using is_message_start_Nil by auto
  obtain c' where bs: "parse_loop bs (save_message ms c) (Some (create_new_message (strip s))) =
      (save_message ms c, Some c')" and c': "text_field c' = []"
    using parse_loop_no_body [OF nb create_new_message_text] by blast
  have left: "parse_loop (pre @ s # bs @ rest) [] None = parse_loop rest (save_message ms c) (Some c')"
    using pre st ne bs by (simp add: parse_loop_append)
  have right: "parse_loop (pre @ rest) [] None = parse_loop rest ms c"
    using pre by (simp add: parse_loop_append)
  show ?thesis
  proof (cases rest)
    case Nil
    then show ?thesis
      unfolding parse_word_document_def left right
      by (simp add: save_message_empty [OF c'])
  next
    case (Cons r rs)
    with rest have sr: "is_message_start (strip r)" by simp
    then have "strip r \<noteq> []" using is_message_start_Nil by auto
    with sr Cons have "parse_loop rest (save_message ms c) (Some c') = parse_loop rest ms c"
      by (simp add: save_message_empty [OF c'])
    then show ?thesis
      unfolding parse_word_document_def left right by simp
  qed
qed

text \<open>
  C9. Every message in the parser's output has a non-empty body. A unit that begins at a
  start marker and whose paragraphs add no body text leaves no message behind: the output
  is the one obtained without that unit, whether the unit is followed by another start
  marker or by the end of the input.
\<close>

theorem parsed_messages_have_body:
  "(\<forall>m\<in>set (parse_word_document paragraphs). text_field m \<noteq> []) \<and>
   (is_message_start (strip s) \<and> (\<forall>b\<in>set bs. no_body b) \<and>
    (case rest of [] \<Rightarrow> True | r # rs \<Rightarrow> is_message_start (strip r)) \<longrightarrow>
      parse_word_document (pre @ s # bs @ rest) = parse_word_document (pre @ rest))"
  using parse_output_text unit_without_body_dropped by blast

theorem parsed_messages_have_body_witness:
  "list_all (\<lambda>m. text_field m \<noteq> [])
     (parse_word_document [start_block ''1'', ascii ''body'', start_block ''2'', id_block ''5'']) \<and>
   is_message_start (strip (start_block ''2'')) \<and>
   list_all no_body [id_block ''5'', ascii '' ''] \<and>
   parse_word_document ([start_block ''1'', ascii ''body''] @
       start_block ''2'' # [id_block ''5'', ascii '' ''] @ [start_block ''3'', ascii ''more'']) =
     parse_word_document ([start_block ''1'', ascii ''body''] @ [start_block ''3'', ascii ''more'']) \<and>
   parse_word_document ([start_block ''1'', ascii ''body''] @ [start_block ''3'', ascii ''more'']) =
     [plain_message ''1'' ''body'', plain_message ''3'' ''more'']"
proof -
  have h1: "is_message_start (strip (start_block ''2''))"
    by (simp add: parser_eval)
  have h2: "\<forall>b\<in>set [id_block ''5'', ascii '' '']. no_body b"
    by (simp add: parser_eval no_body_def)
  have h3: "case [start_block ''3'', ascii ''more''] of [] \<Rightarrow> True
            | r # rs \<Rightarrow> is_message_start (strip r)"
    by (simp add: parser_eval)
  have v: "parse_word_document ([start_block ''1'', ascii ''body''] @ [start_block ''3'', ascii ''more'']) =
     [plain_message ''1'' ''body'', plain_message ''3'' ''more'']"
    by (simp add: parser_eval)
  note t = parsed_messages_have_body [of "[start_block ''1'', ascii ''body'', start_block ''2'',
        id_block ''5'']" "start_block ''2''" "[id_block ''5'', ascii '' '']"
        "[start_block ''3'', ascii ''more'']" "[start_block ''1'', ascii ''body'']"]
  from t h1 h2 h3 v show ?thesis unfolding list_all_iff by blast
qed

text \<open>
  C10. The paragraphs that come before the first start marker are ignored: the parser's
  output is the one it gives for the input without them.
\<close>

theorem blocks_before_first_start_ignored:
  "\<forall>b\<in>set pre. \<not> is_message_start (strip b) \<Longrightarrow>
   parse_word_document (pre @ rest) = parse_word_document rest"
  by (simp add: parse_word_document_def parse_loop_before_start)

theorem blocks_before_first_start_ignored_witness:
  "list_all (\<lambda>b. \<not> is_message_start (strip b))
     [id_block ''7'', from_block ''Ann'', ascii ''hello #tag''] \<and>
   parse_word_document ([id_block ''7'', from_block ''Ann'', ascii ''hello #tag''] @
       [start_block ''1'', ascii ''body'']) =
     parse_word_document [start_block ''1'', ascii ''body''] \<and>
   parse_word_document [start_block ''1'', ascii ''body''] = [plain_message ''1'' ''body'']"
proof -
  have h: "\<forall>b\<in>set [id_block ''7'', from_block ''Ann'', ascii ''hello #tag''].
      \<not> is_message_start (strip b)"
    by (simp add: parser_eval)
  have v: "parse_word_document [start_block ''1'', ascii ''body''] = [plain_message ''1'' ''body'']"
    by (simp add: parser_eval)
  from h v blocks_before_first_start_ignored [OF h, of "[start_block ''1'', ascii ''body'']"]
  show ?thesis unfolding list_all_iff by blast
qed

lemma str_in_single: "str_in [c] s \<longleftrightarrow> c \<in> set s"
  by (induction s) auto

lemma str_in_pair: "str_in [c, c] s \<Longrightarrow> c \<in> set s"
  by (induction s) auto

lemma has_separator_iff:
  "has_separator text \<longleftrightarrow> divider \<in> set text \<or> box_line \<in> set text"
  by (auto simp: has_separator_def str_in_single dest: str_in_pair)

lemma pmc_separator:
  "has_separator text \<Longrightarrow> process_message_content message text = message"
  by (simp add: process_message_content_def)

lemma pmc_body:
  assumes "\<not> has_separator text" and "\<not> matches_metadata text"
  shows "process_message_content message text =
     message\<lparr>text_field :=
               (if text_field message \<noteq> [] then text_field message @ [10] @ text else text),
             tags := tags message @ list_set (findall_tags text)\<rparr>"
proof -
  from assms(2) have none: "search_sender text = None" "search_date text = None"
    "search_message_id text = None" "search_reply_to text = None"
    by (simp_all add: matches_metadata_def)
  show ?thesis
    using assms by (simp add: process_message_content_def none Let_def list_set_def)
qed

text \<open>
  C2, as the code has it. A paragraph that holds a separator glyph (U+2015 or U+2500)
  anywhere leaves the message as it was. A paragraph without such a glyph that matches none
  of the four metadata patterns is appended to the body, after a line break when the body
  is not empty, and its tags, each once, are added to the tags of the message.
\<close>

theorem content_block_processing:
  "(divider \<in> set text \<or> box_line \<in> set text \<longrightarrow>
      process_message_content message text = message) \<and>
   (divider \<notin> set text \<and> box_line \<notin> set text \<and> \<not> matches_metadata text \<longrightarrow>
      process_message_content message text =
        message\<lparr>text_field :=
                  (if text_field message \<noteq> [] then text_field message @ [10] @ text else text),
                tags := tags message @ list_set (findall_tags text)\<rparr>)"
  using pmc_separator pmc_body has_separator_iff by blast

theorem content_block_processing_witness:
  "divider \<in> set [divider, divider, divider] \<and>
   process_message_content (plain_message ''1'' ''x'') [divider, divider, divider] =
     plain_message ''1'' ''x'' \<and>
   divider \<notin> set (ascii ''Focus #a #a #b'') \<and> box_line \<notin> set (ascii ''Focus #a #a #b'') \<and>
   \<not> matches_metadata (ascii ''Focus #a #a #b'') \<and>
   process_message_content (plain_message ''1'' ''x'') (ascii ''Focus #a #a #b'') =
     (plain_message ''1'' ''x'')
       \<lparr>text_field := ascii ''x'' @ [10] @ ascii ''Focus #a #a #b'',
        tags := [ascii ''#a'', ascii ''#b'']\<rparr>"
proof -
  have h1: "divider \<in> set [divider, divider, divider]" by simp
  have h2: "divider \<notin> set (ascii ''Focus #a #a #b'') \<and>
      box_line \<notin> set (ascii ''Focus #a #a #b'') \<and>
      \<not> matches_metadata (ascii ''Focus #a #a #b'')"
    by (simp add: parser_eval)
  have v: "(plain_message ''1'' ''x'')
      \<lparr>text_field := (if text_field (plain_message ''1'' ''x'') \<noteq> []
                       then text_field (plain_message ''1'' ''x'') @ [10] @ ascii ''Focus #a #a #b''
                       else ascii ''Focus #a #a #b''),
        tags := tags (plain_message ''1'' ''x'') @
                list_set (findall_tags (ascii ''Focus #a #a #b''))\<rparr> =
     (plain_message ''1'' ''x'')
       \<lparr>text_field := ascii ''x'' @ [10] @ ascii ''Focus #a #a #b'',
        tags := [ascii ''#a'', ascii ''#b'']\<rparr>"
    by (simp add: parser_eval)
  from content_block_processing [of "[divider, divider, divider]" "plain_message ''1'' ''x''"]
    content_block_processing [of "ascii ''Focus #a #a #b''" "plain_message ''1'' ''x''"]
    h1 h2 v
  show ?thesis by metis
qed

text \<open>
  The paragraph \<^verbatim>\<open>a\<close>, U+2015, \<^verbatim>\<open>b\<close> is not a start marker, matches no metadata
  pattern and is not made of separator glyphs only, yet it is not appended to the body:
  the message that holds nothing else is dropped, while the same paragraph without the
  glyph gives a message.
\<close>

theorem text_with_bar_skipped_counterexample:
  "\<not> is_message_start (ascii ''a'' @ [divider] @ ascii ''b'') \<and>
   \<not> matches_metadata (ascii ''a'' @ [divider] @ ascii ''b'') \<and>
   process_message_content (plain_message ''1'' ''x'') (ascii ''a'' @ [divider] @ ascii ''b'') =
     plain_message ''1'' ''x'' \<and>
   parse_word_document [start_block ''1'', ascii ''a'' @ [divider] @ ascii ''b''] = [] \<and>
   parse_word_document [start_block ''1'', ascii ''a'' @ ascii ''b''] = [plain_message ''1'' ''ab'']"
  by (simp add: parser_eval)

section \<open>Properties of the grouper\<close>

lemmas grouper_defs =
  messages_by_id_def number_key_def number_value_def sort_by_number_def
  find_question_thread_def ids_of_def find_answer_thread_def texts_of_def create_qa_pair_def
  question_key_def violetta_answers_def group_threads_def group_questions_answers_def

lemmas grouper_eval = grouper_defs char_defs str_defs example_defs marker_def

lemma messages_by_id_snoc:
  "messages_by_id (ms @ [x]) =
     (if message_id x \<noteq> [] then (messages_by_id ms)(message_id x \<mapsto> x) else messages_by_id ms)"
  by (simp add: messages_by_id_def)

lemma messages_by_id_Some:
  "messages_by_id ms k = Some s \<Longrightarrow> s \<in> set ms \<and> message_id s = k \<and> k \<noteq> []"
proof (induction ms rule: rev_induct)
  case Nil
  then show ?case by (simp add: messages_by_id_def)
next
  case (snoc x ms)
  then show ?case by (auto simp: messages_by_id_snoc split: if_splits)
qed

lemma messages_by_id_None:
  "messages_by_id ms k = None \<longleftrightarrow> k = [] \<or> k \<notin> message_id ` set ms"
proof (induction ms rule: rev_induct)
  case Nil
  then show ?case by (simp add: messages_by_id_def)
next
  case (snoc x ms)
  then show ?case by (auto simp: messages_by_id_snoc)
qed

lemma sort_by_number_Inr:
  "sort_by_number xs = Inr ys \<Longrightarrow> ys = sort_key number_value xs"
  by (simp add: sort_by_number_def split: if_splits)


lemma find_question_thread_resolved:
  assumes "messages_by_id messages rid = Some start"
    and "find_question_thread messages rid = Inr thread"
  shows "(reply_to start = [] \<longrightarrow> thread = [start]) \<and>
         (reply_to start \<noteq> [] \<longrightarrow>
            thread = sort_key number_value
              (filter (\<lambda>msg. reply_to msg = reply_to start \<and> sender msg = sender start \<and>
                              \<not> is_violetta_answer msg) messages))"
  using assms by (auto simp: find_question_thread_def dest: sort_by_number_Inr)

lemma find_answer_thread_Inr:
  "find_answer_thread messages q = Inr a \<Longrightarrow>
   a = sort_key number_value
         (filter (\<lambda>msg. is_violetta_answer msg \<and> reply_to msg \<in> set (ids_of q)) messages)"
  by (simp add: find_answer_thread_def sort_by_number_Inr)

lemma group_loop_emitted:
  "group_loop messages answers acc seen = Inr prs \<Longrightarrow> p \<in> set prs \<Longrightarrow>
   p \<in> set acc \<or> (\<exists>answer\<in>set answers. driven_by messages answer p)"
proof (induction answers arbitrary: acc seen)
  case Nil
  then show ?case by simp
next
  case (Cons answer rest)
  show ?case
  proof (cases "reply_to answer = []")
    case True
    with Cons.prems have "group_loop messages rest acc seen = Inr prs" by simp
    from Cons.IH [OF this Cons.prems(2)] show ?thesis by auto
  next
    case rt: False
    show ?thesis
    proof (cases "find_question_thread messages (reply_to answer)")
      case (Inl e)
      with rt Cons.prems show ?thesis by simp
    next
      case (Inr q)
      show ?thesis
      proof (cases "q = [] \<or> question_key q \<in> seen")
        case True
        with rt Inr Cons.prems have "group_loop messages rest acc seen = Inr prs" by (auto split: if_splits)
        from Cons.IH [OF this Cons.prems(2)] show ?thesis by auto
      next
        case False
        show ?thesis
        proof (cases "find_answer_thread messages q")
          case (Inl e)
          with rt Inr False Cons.prems show ?thesis by simp
        next
          case a: (Inr a)
          with rt Inr False Cons.prems
          have "group_loop messages rest (acc @ [(q, a)]) (insert (question_key q) seen) = Inr prs"
            by simp
          from Cons.IH [OF this Cons.prems(2)]
          show ?thesis using rt Inr False a by (auto simp: driven_by_def)
        qed
      qed
    qed
  qed
qed

lemma group_loop_distinct:
  "group_loop messages answers acc seen = Inr prs \<Longrightarrow>
   distinct (map (\<lambda>p. question_key (fst p)) acc) \<Longrightarrow>
   (\<forall>p\<in>set acc. question_key (fst p) \<in> seen) \<Longrightarrow>
   distinct (map (\<lambda>p. question_key (fst p)) prs)"
proof (induction answers arbitrary: acc seen)
  case Nil
  then show ?case by simp
next
  case (Cons answer rest)
  show ?case
  proof (cases "reply_to answer = []")
    case True
    with Cons.prems have "group_loop messages rest acc seen = Inr prs" by simp
    from Cons.IH [OF this Cons.prems(2,3)] show ?thesis .
  next
    case rt: False
    show ?thesis
    proof (cases "find_question_thread messages (reply_to answer)")
      case (Inl e)
      with rt Cons.prems show ?thesis by simp
    next
      case (Inr q)
      show ?thesis
      proof (cases "q = [] \<or> question_key q \<in> seen")
        case True
        with rt Inr Cons.prems have "group_loop messages rest acc seen = Inr prs" by (auto split: if_splits)
        from Cons.IH [OF this Cons.prems(2,3)] show ?thesis .
      next
        case False
        show ?thesis
        proof (cases "find_answer_thread messages q")
          case (Inl e)
          with rt Inr False Cons.prems show ?thesis by simp
        next
          case a: (Inr a)
          with rt Inr False Cons.prems
          have run: "group_loop messages rest (acc @ [(q, a)]) (insert (question_key q) seen) = Inr prs"
            by simp
          have d: "distinct (map (\<lambda>p. question_key (fst p)) (acc @ [(q, a)]))"
            using Cons.prems(2,3) False by auto
          have s: "\<forall>p\<in>set (acc @ [(q, a)]). question_key (fst p) \<in> insert (question_key q) seen"
            using Cons.prems(3) by auto
          from Cons.IH [OF run d s] show ?thesis .
        qed
      qed
    qed
  qed
qed

lemma group_loop_unresolved:
  "messages_by_id messages (reply_to answer) = None \<Longrightarrow>
   group_loop messages (answer # rest) acc seen = group_loop messages rest acc seen"
  by (simp add: find_question_thread_def)

lemma group_loop_filter_resolved:
  "group_loop messages answers acc seen =
   group_loop messages
     (filter (\<lambda>answer. messages_by_id messages (reply_to answer) \<noteq> None) answers) acc seen"
proof (induction answers arbitrary: acc seen)
  case Nil
  then show ?case by simp
next
  case (Cons answer rest)
  show ?case
  proof (cases "messages_by_id messages (reply_to answer) = None")
    case True
    then show ?thesis using Cons.IH group_loop_unresolved [OF True] by simp
  next
    case False
    then show ?thesis using Cons.IH by (simp split: sum.splits)
  qed
qed

lemma readable_filter:
  "readable_numbers messages \<Longrightarrow> readable_numbers (filter P messages)"
  by (auto simp: readable_numbers_def list_all_iff)

lemma sort_by_number_readable:
  "readable_numbers xs \<Longrightarrow> sort_by_number xs = Inr (sort_key number_value xs)"
  by (auto simp: readable_numbers_def sort_by_number_def list_ex_iff list_all_iff
      number_key_def py_int_def isdigit_def)

lemma find_question_thread_returns:
  "readable_numbers messages \<Longrightarrow> \<exists>thread. find_question_thread messages rid = Inr thread"
  by (auto simp: find_question_thread_def sort_by_number_readable readable_filter
      split: option.splits)

lemma find_answer_thread_returns:
  "readable_numbers messages \<Longrightarrow> \<exists>thread. find_answer_thread messages q = Inr thread"
  by (simp add: find_answer_thread_def sort_by_number_readable readable_filter)

lemma group_loop_returns:
  "readable_numbers messages \<Longrightarrow> \<exists>prs. group_loop messages answers acc seen = Inr prs"
proof (induction answers arbitrary: acc seen)
  case Nil
  then show ?case by simp
next
  case (Cons answer rest)
  obtain q where q: "find_question_thread messages (reply_to answer) = Inr q"
    using find_question_thread_returns [OF Cons.prems] by blast
  obtain a where a: "find_answer_thread messages q = Inr a"
    using find_answer_thread_returns [OF Cons.prems] by blast
  show ?case using Cons.IH [OF Cons.prems] q a by simp
qed

lemma match_number_decimal:
  "match_number pre lit s = Some g \<Longrightarrow> g \<noteq> [] \<and> list_all isdecimal_cp g"
  by (auto simp: match_number_def Let_def list_all_iff split: if_splits dest: set_takeWhileD)

lemma re_search_match_number:
  "re_search (match_number pre lit) s = Some g \<Longrightarrow> g \<noteq> [] \<and> list_all isdecimal_cp g"
  by (induction s) (auto split: option.splits dest: match_number_decimal)

lemma create_new_message_number:
  "list_all isdecimal_cp (message_number (create_new_message t))"
  using re_search_match_number [of lit_message "[35]" t]
  by (auto simp: create_new_message_def search_message_start_def split: option.splits)

lemma pmc_number:
  "message_number (process_message_content m t) = message_number m"
  by (simp add: process_message_content_def Let_def)

lemma save_message_number:
  "\<forall>m\<in>set messages. list_all isdecimal_cp (message_number m) \<Longrightarrow>
   \<forall>m\<in>set_option cur. list_all isdecimal_cp (message_number m) \<Longrightarrow>
   \<forall>m\<in>set (save_message messages cur). list_all isdecimal_cp (message_number m)"
  by (auto simp: save_message_def split: option.splits)

lemma parse_loop_number:
  "\<forall>m\<in>set messages. list_all isdecimal_cp (message_number m) \<Longrightarrow>
   \<forall>m\<in>set_option cur. list_all isdecimal_cp (message_number m) \<Longrightarrow>
   (\<forall>m\<in>set (fst (parse_loop ps messages cur)). list_all isdecimal_cp (message_number m)) \<and>
   (\<forall>m\<in>set_option (snd (parse_loop ps messages cur)). list_all isdecimal_cp (message_number m))"
proof (induction ps arbitrary: messages cur)
  case Nil
  then show ?case by simp
next
  case (Cons p ps)
  show ?case
  proof (cases "strip p = []")
    case True
    then show ?thesis using Cons.IH [OF Cons.prems] by simp
  next
    case ne: False
    show ?thesis
    proof (cases "is_message_start (strip p)")
      case True
      have "\<forall>m\<in>set_option (Some (create_new_message (strip p))).
              list_all isdecimal_cp (message_number m)"
        by (simp add: create_new_message_number)
      from Cons.IH [OF save_message_number [OF Cons.prems] this]
      show ?thesis using ne True by simp
    next
      case False
      show ?thesis
      proof (cases cur)
        case None
        then show ?thesis using ne False Cons.IH [OF Cons.prems] by simp
      next
        case (Some m)
        have "\<forall>x\<in>set_option (Some (process_message_content m (strip p))).
              list_all isdecimal_cp (message_number x)"
          using Cons.prems(2) Some by (simp add: pmc_number)
        from Cons.IH [OF Cons.prems(1) this]
        show ?thesis using ne False Some by simp
      qed
    qed
  qed
qed

lemma parsed_numbers_decimal:
  "\<forall>m\<in>set (parse_word_document paragraphs). list_all isdecimal_cp (message_number m)"
proof -
  obtain ms cur where pl: "parse_loop paragraphs [] None = (ms, cur)"
    by (cases "parse_loop paragraphs [] None")
  have "(\<forall>m\<in>set (fst (parse_loop paragraphs [] None)). list_all isdecimal_cp (message_number m)) \<and>
   (\<forall>m\<in>set_option (snd (parse_loop paragraphs [] None)). list_all isdecimal_cp (message_number m))"
    by (rule parse_loop_number) simp_all
  with pl have "\<forall>m\<in>set (save_message ms cur). list_all isdecimal_cp (message_number m)"
    by (intro save_message_number) simp_all
  then show ?thesis
    unfolding parse_word_document_def pl
    by (auto simp: identify_violetta_answers_def)
qed

lemma parsed_transcript_groups:
  assumes "\<forall>m\<in>set (parse_word_document paragraphs). length (message_number m) \<le> 4300"
  shows "\<exists>prs. group_threads (parse_word_document paragraphs) = Inr prs"
proof -
  have "readable_numbers (parse_word_document paragraphs)"
    using assms parsed_numbers_decimal [of paragraphs]
    by (auto simp: readable_numbers_def list_all_iff)
  then show ?thesis
    unfolding group_threads_def by (rule group_loop_returns)
qed

text \<open>
  The whole pipeline on a small transcript: two messages, the second an official answer
  to the first, give one pair.
\<close>

lemma focus_chat_pairs:
  "group_questions_answers (parse_word_document focus_chat) =
     Inr [\<lparr>question_ids = [ascii ''10''],
           question_text = ascii ''What is focus?'',
           question_sender = ascii ''Alice'',
           question_date = [],
           answer_ids = [ascii ''11''],
           answer_text = ascii ''Focus is attention. '' @ answer_tag @ ascii '' #motivation'',
           qa_tags = [answer_tag, ascii ''#motivation''],
           answer_date = []\<rparr>]"
  by (simp add: parser_eval grouper_defs focus_chat_def)

lemma emitted_driven:
  assumes "group_threads messages = Inr prs" and "p \<in> set prs"
  shows "\<exists>answer\<in>set messages. is_violetta_answer answer \<and> driven_by messages answer p"
proof -
  from group_loop_emitted [OF assms(1) [unfolded group_threads_def] assms(2)]
  show ?thesis by (auto simp: violetta_answers_def)
qed

lemma driven_resolves:
  assumes "driven_by messages answer (q, a)"
  shows "\<exists>start. messages_by_id messages (reply_to answer) = Some start"
  using assms by (auto simp: driven_by_def find_question_thread_def split: option.splits)

lemma target_in_thread:
  assumes res: "messages_by_id messages rid = Some start"
    and q: "find_question_thread messages rid = Inr q"
    and ok: "reply_to start = [] \<or> \<not> is_violetta_answer start"
  shows "start \<in> set q"
proof (cases "reply_to start = []")
  case True
  with find_question_thread_resolved [OF res q] show ?thesis by simp
next
  case False
  with ok have na: "\<not> is_violetta_answer start" by simp
  from messages_by_id_Some [OF res] have "start \<in> set messages" by simp
  with find_question_thread_resolved [OF res q] False na show ?thesis by simp
qed

lemma answer_in_thread:
  assumes res: "messages_by_id messages (reply_to answer) = Some start"
    and ans: "answer \<in> set messages" "is_violetta_answer answer"
    and inq: "start \<in> set q"
    and a: "find_answer_thread messages q = Inr a"
  shows "answer \<in> set a"
proof -
  from messages_by_id_Some [OF res]
  have "message_id start = reply_to answer" "message_id start \<noteq> []" by simp_all
  with inq have "reply_to answer \<in> message_id ` {m \<in> set q. message_id m \<noteq> []}"
    by (intro image_eqI [of _ _ start]) simp_all
  then have "reply_to answer \<in> set (ids_of q)" by (simp add: ids_of_def)
  with ans find_answer_thread_Inr [OF a] show ?thesis by simp
qed

lemma thread_chat_groups:
  "group_threads thread_chat = Inr [([t_q0, t_q2, t_q1], [t_a2, t_a1])]"
  by (simp add: grouper_eval chat_message_def t_root_def t_q1_def t_q2_def t_q0_def
        t_lost_def t_a1_def t_a2_def thread_chat_def)

text \<open>
  C6. An official answer whose reply target is not in the id index is passed over: the loop
  goes on with the remaining answers, the pairs and the keys unchanged, and raises nothing
  for it. The run is the run over the official answers whose reply target is in the index.
\<close>

theorem unresolved_answer_skipped:
  "(messages_by_id messages (reply_to answer) = None \<longrightarrow>
      group_loop messages (answer # rest) acc processed =
      group_loop messages rest acc processed) \<and>
   group_threads messages =
     group_loop messages
       (filter (\<lambda>answer. messages_by_id messages (reply_to answer) \<noteq> None)
          (violetta_answers messages)) [] {}"
  using group_loop_unresolved group_loop_filter_resolved [of messages "violetta_answers messages"]
  by (simp add: group_threads_def)

theorem unresolved_answer_skipped_witness:
  "messages_by_id thread_chat (reply_to t_lost) = None \<and>
   group_loop thread_chat (t_lost # [t_a1, t_a2]) [] {} = group_loop thread_chat [t_a1, t_a2] [] {} \<and>
   violetta_answers thread_chat = [t_lost, t_a1, t_a2] \<and>
   filter (\<lambda>answer. messages_by_id thread_chat (reply_to answer) \<noteq> None)
     (violetta_answers thread_chat) = [t_a1, t_a2] \<and>
   group_threads thread_chat = Inr [([t_q0, t_q2, t_q1], [t_a2, t_a1])]"
proof -
  have h: "messages_by_id thread_chat (reply_to t_lost) = None"
    by (simp add: grouper_eval chat_message_def t_root_def t_q1_def t_q2_def t_q0_def
        t_lost_def t_a1_def t_a2_def thread_chat_def)
  have v: "violetta_answers thread_chat = [t_lost, t_a1, t_a2]"
    by (simp add: grouper_eval chat_message_def t_root_def t_q1_def t_q2_def t_q0_def
        t_lost_def t_a1_def t_a2_def thread_chat_def)
  have f: "filter (\<lambda>answer. messages_by_id thread_chat (reply_to answer) \<noteq> None)
     (violetta_answers thread_chat) = [t_a1, t_a2]"
    by (simp add: grouper_eval chat_message_def t_root_def t_q1_def t_q2_def t_q0_def
        t_lost_def t_a1_def t_a2_def thread_chat_def)
  have g: "group_threads thread_chat = Inr [([t_q0, t_q2, t_q1], [t_a2, t_a1])]"
    by (rule thread_chat_groups)
  from unresolved_answer_skipped [of thread_chat t_lost "[t_a1, t_a2]" "[]" "{}"] h v f g
  show ?thesis by blast
qed




text \<open>
  The search does not return when the sort raises: on a sequence number that
  \<^verbatim>\<open>isdigit\<close> accepts and \<^verbatim>\<open>int\<close> rejects, which is a number with a digit that is not
  a decimal digit, such as the superscript two or a circled digit, or a number of more
  than 4300 digits. It returns whenever no message has such a number. The parser yields
  runs of decimal digits only, of any length.
\<close>

lemma long_number_raises:
  "list_all isdecimal_cp s \<Longrightarrow> 4300 < length s \<Longrightarrow>
   isdigit s \<and> py_int s = Inl ValueError"
  by (auto simp: isdigit_def py_int_def isdigit_cp_def list_all_iff)

lemma other_script_number_read:
  "isdigit [1635] \<and> py_int [1635] = Inr 3 \<and> isdigit [9312] \<and> py_int [9312] = Inl ValueError"
  by (simp add: str_defs char_defs)

lemma superscript_number_raises:
  "isdigit [178] \<and> py_int [178] = Inl ValueError \<and>
   sort_by_number [(chat_message [] ''A'' ''1'' ''5'' [] [] False)
                     \<lparr>message_number := [178]\<rparr>] = Inl ValueError"
  by (simp add: grouper_eval chat_message_def)

text \<open>
  C1, as the code has it. Every emitted pair has a non-empty question thread, found from
  the reply target of an official answer that resolved to a known message. Its answer
  thread holds that official answer, and so is not empty, whenever the resolved message
  replies to nothing or is not itself an official answer.
\<close>

theorem emitted_pair_threads:
  assumes "group_threads messages = Inr prs" and "(q, a) \<in> set prs"
  shows "q \<noteq> [] \<and>
    (\<exists>answer start.
        answer \<in> set messages \<and> is_violetta_answer answer \<and>
        messages_by_id messages (reply_to answer) = Some start \<and>
        driven_by messages answer (q, a) \<and>
        (reply_to start = [] \<or> \<not> is_violetta_answer start \<longrightarrow> answer \<in> set a \<and> a \<noteq> []))"
proof -
  from emitted_driven [OF assms] obtain answer where
    ans: "answer \<in> set messages" "is_violetta_answer answer" and
    d: "driven_by messages answer (q, a)" by blast
  from driven_resolves [OF d] obtain start where
    res: "messages_by_id messages (reply_to answer) = Some start" by blast
  from d have q: "find_question_thread messages (reply_to answer) = Inr q"
    and a: "find_answer_thread messages q = Inr a" and ne: "q \<noteq> []"
    by (simp_all add: driven_by_def)
  have "answer \<in> set a \<and> a \<noteq> []" if "reply_to start = [] \<or> \<not> is_violetta_answer start"
  proof -
    from answer_in_thread [OF res ans target_in_thread [OF res q that] a]
    show ?thesis by auto
  qed
  with ne ans res d show ?thesis by blast
qed

theorem emitted_pair_threads_witness:
  "group_threads [ex_q, ex_a1, ex_m, ex_a2] = Inr [([ex_q], [ex_a1]), ([ex_m], [])] \<and>
   ([ex_q], [ex_a1]) \<in> set [([ex_q], [ex_a1]), ([ex_m], [])] \<and>
   [ex_q] \<noteq> [] \<and>
   (\<exists>answer start.
        answer \<in> set [ex_q, ex_a1, ex_m, ex_a2] \<and> is_violetta_answer answer \<and>
        messages_by_id [ex_q, ex_a1, ex_m, ex_a2] (reply_to answer) = Some start \<and>
        driven_by [ex_q, ex_a1, ex_m, ex_a2] answer ([ex_q], [ex_a1]) \<and>
        (reply_to start = [] \<or> \<not> is_violetta_answer start \<longrightarrow>
           answer \<in> set [ex_a1] \<and> [ex_a1] \<noteq> []))"
proof -
  have g: "group_threads [ex_q, ex_a1, ex_m, ex_a2] = Inr [([ex_q], [ex_a1]), ([ex_m], [])]"
    by (simp add: grouper_eval chat_message_def ex_q_def ex_a1_def ex_m_def ex_a2_def)
  have m: "([ex_q], [ex_a1]) \<in> set [([ex_q], [ex_a1]), ([ex_m], [])]" by simp
  from emitted_pair_threads [OF g m] g m show ?thesis by blast
qed

text \<open>
  A transcript with a question, an official answer to it, an untagged remark of the
  answerer on the same question, and a second official answer that replies to the first.
  The second answer resolves to the first, whose siblings by the same sender that are not
  official answers form the question thread: the remark alone. No official answer replies
  to the remark, so the pair is emitted with an empty answer thread.
\<close>

theorem answer_to_answer_counterexample:
  "parse_word_document ex_chat = [ex_q, ex_a1, ex_m, ex_a2] \<and>
   group_threads [ex_q, ex_a1, ex_m, ex_a2] = Inr [([ex_q], [ex_a1]), ([ex_m], [])] \<and>
   answer_ids (create_qa_pair [ex_m] []) = []"
proof -
  have p: "parse_word_document ex_chat = [ex_q, ex_a1, ex_m, ex_a2]"
    by (simp add: parser_eval chat_message_def ex_q_def ex_a1_def ex_m_def ex_a2_def
        ex_chat_def)
  have g: "group_threads [ex_q, ex_a1, ex_m, ex_a2] = Inr [([ex_q], [ex_a1]), ([ex_m], [])]"
    by (simp add: grouper_eval chat_message_def ex_q_def ex_a1_def ex_m_def ex_a2_def)
  have c: "answer_ids (create_qa_pair [ex_m] []) = []"
    by (simp add: create_qa_pair_def ids_of_def)
  from p g c show ?thesis by blast
qed



lemma question_key_of_pair:
  "sort (question_ids (create_qa_pair q a)) = question_key q"
  by (simp add: create_qa_pair_def question_key_def)

lemma group_loop_seen:
  "find_question_thread messages (reply_to answer) = Inr q \<Longrightarrow> question_key q \<in> processed \<Longrightarrow>
   group_loop messages (answer # rest) acc processed = group_loop messages rest acc processed"
  by simp

text \<open>
  C5. The pairs of one run have pairwise different keys (the sorted non-empty ids of the
  question thread), and an official answer whose question thread has a key that was seen
  before is passed over.
\<close>

theorem question_keys_unique:
  "(group_questions_answers messages = Inr pairs \<longrightarrow>
      distinct (map (\<lambda>qa. sort (question_ids qa)) pairs)) \<and>
   (find_question_thread messages (reply_to answer) = Inr q \<and> question_key q \<in> processed \<longrightarrow>
      group_loop messages (answer # rest) acc processed =
      group_loop messages rest acc processed)"
proof (intro conjI impI)
  assume g: "group_questions_answers messages = Inr pairs"
  then obtain prs where prs: "group_threads messages = Inr prs"
    and pairs: "pairs = map (\<lambda>(q, a). create_qa_pair q a) prs"
    by (auto simp: group_questions_answers_def split: sum.splits)
  have "distinct (map (\<lambda>p. question_key (fst p)) prs)"
    using group_loop_distinct [OF prs [unfolded group_threads_def]] by simp
  moreover have "map (\<lambda>qa. sort (question_ids qa)) pairs = map (\<lambda>p. question_key (fst p)) prs"
    unfolding pairs by (simp add: question_key_of_pair split_def)
  ultimately show "distinct (map (\<lambda>qa. sort (question_ids qa)) pairs)" by simp
next
  assume "find_question_thread messages (reply_to answer) = Inr q \<and> question_key q \<in> processed"
  then show "group_loop messages (answer # rest) acc processed =
      group_loop messages rest acc processed"
    using group_loop_seen by blast
qed

theorem question_keys_unique_witness:
  "group_questions_answers thread_chat =
     Inr [create_qa_pair [t_q0, t_q2, t_q1] [t_a2, t_a1]] \<and>
   distinct (map (\<lambda>qa. sort (question_ids qa))
     [create_qa_pair [t_q0, t_q2, t_q1] [t_a2, t_a1]]) \<and>
   find_question_thread thread_chat (reply_to t_a2) = Inr [t_q0, t_q2, t_q1] \<and>
   question_key [t_q0, t_q2, t_q1] \<in> {[ascii ''6'', ascii ''7'', ascii ''8'']} \<and>
   group_loop thread_chat (t_a2 # []) [([t_q0, t_q2, t_q1], [t_a2, t_a1])]
       {[ascii ''6'', ascii ''7'', ascii ''8'']} =
     group_loop thread_chat [] [([t_q0, t_q2, t_q1], [t_a2, t_a1])]
       {[ascii ''6'', ascii ''7'', ascii ''8'']}"
proof -
  have t: "group_threads thread_chat = Inr [([t_q0, t_q2, t_q1], [t_a2, t_a1])]"
    by (rule thread_chat_groups)
  have g: "group_questions_answers thread_chat =
     Inr [create_qa_pair [t_q0, t_q2, t_q1] [t_a2, t_a1]]"
    by (simp add: group_questions_answers_def t)
  have f: "find_question_thread thread_chat (reply_to t_a2) = Inr [t_q0, t_q2, t_q1]"
    by (simp add: grouper_eval chat_message_def t_root_def t_q1_def t_q2_def t_q0_def
        t_lost_def t_a1_def t_a2_def thread_chat_def)
  have k: "question_key [t_q0, t_q2, t_q1] \<in> {[ascii ''6'', ascii ''7'', ascii ''8'']}"
    by (simp add: grouper_eval chat_message_def t_root_def t_q1_def t_q2_def t_q0_def
        t_lost_def t_a1_def t_a2_def thread_chat_def)
  from question_keys_unique [of thread_chat "[create_qa_pair [t_q0, t_q2, t_q1] [t_a2, t_a1]]"
      t_a2 "[t_q0, t_q2, t_q1]" "{[ascii ''6'', ascii ''7'', ascii ''8'']}" "[]"
      "[([t_q0, t_q2, t_q1], [t_a2, t_a1])]"] g f k
  show ?thesis by blast
qed

lemma qa_tags_set:
  "distinct (qa_tags (create_qa_pair q a)) \<and>
   set (qa_tags (create_qa_pair q a)) = (\<Union>m\<in>set a. set (tags m))"
  by (simp add: create_qa_pair_def list_set_def)

text \<open>
  C7. The tags of every emitted pair are without duplicates, and they are the tags of the
  messages of its answer thread, no others; a tag that only a question message carries is
  not among them. (The tags of a single message may hold duplicates, as the example shows.)
\<close>

theorem qa_tags_from_answers:
  assumes "group_threads messages = Inr prs"
  shows "group_questions_answers messages = Inr (map (\<lambda>(q, a). create_qa_pair q a) prs) \<and>
         (\<forall>(q, a)\<in>set prs.
            distinct (qa_tags (create_qa_pair q a)) \<and>
            set (qa_tags (create_qa_pair q a)) = (\<Union>m\<in>set a. set (tags m)))"
  using assms qa_tags_set by (auto simp: group_questions_answers_def)

theorem qa_tags_from_answers_witness:
  "parse_word_document tag_chat = [tag_q, tag_a] \<and>
   tags tag_q = [ascii ''#topic''] \<and>
   tags tag_a = [ascii ''#x'', answer_tag, ascii ''#x'', ascii ''#y''] \<and>
   group_threads [tag_q, tag_a] = Inr [([tag_q], [tag_a])] \<and>
   group_questions_answers [tag_q, tag_a] = Inr [create_qa_pair [tag_q] [tag_a]] \<and>
   qa_tags (create_qa_pair [tag_q] [tag_a]) = [answer_tag, ascii ''#x'', ascii ''#y''] \<and>
   distinct (qa_tags (create_qa_pair [tag_q] [tag_a])) \<and>
   set (qa_tags (create_qa_pair [tag_q] [tag_a])) = (\<Union>m\<in>set [tag_a]. set (tags m))"
proof -
  have p: "parse_word_document tag_chat = [tag_q, tag_a]"
    by (simp add: parser_eval chat_message_def tag_chat_def tag_q_def tag_a_def)
  have t: "tags tag_q = [ascii ''#topic'']"
    "tags tag_a = [ascii ''#x'', answer_tag, ascii ''#x'', ascii ''#y'']"
    by (simp_all add: chat_message_def tag_chat_def tag_q_def tag_a_def)
  have g: "group_threads [tag_q, tag_a] = Inr [([tag_q], [tag_a])]"
    by (simp add: grouper_eval chat_message_def tag_chat_def tag_q_def tag_a_def)
  have v: "qa_tags (create_qa_pair [tag_q] [tag_a]) = [answer_tag, ascii ''#x'', ascii ''#y'']"
    by (simp add: grouper_eval chat_message_def tag_chat_def tag_q_def tag_a_def)
  from qa_tags_from_answers [OF g]
  have "group_questions_answers [tag_q, tag_a] = Inr [create_qa_pair [tag_q] [tag_a]]"
    "distinct (qa_tags (create_qa_pair [tag_q] [tag_a]))"
    "set (qa_tags (create_qa_pair [tag_q] [tag_a])) = (\<Union>m\<in>set [tag_a]. set (tags m))"
    by simp_all
  with p t g v show ?thesis by blast
qed

section \<open>Properties of the export metadata\<close>









end
